theory Spec2Isabelle
  imports Complex_Main "HOL-Library.Multiset" "HOL-Library.Product_Lexorder"
begin

section \<open>Geometry and spectra\<close>

text \<open>
  The C++ \<^verbatim>\<open>float\<close> is read as a real number: rounding, infinities and NaN are outside
  the model. Points, vectors and normals are triples of coordinates, a spectrum is a
  triple of coefficients.
\<close>

type_synonym float = real
type_synonym Point = "float \<times> float \<times> float"
type_synonym Vector = "float \<times> float \<times> float"
type_synonym Normal = "float \<times> float \<times> float"
type_synonym Spectrum = "float \<times> float \<times> float"

fun Dot :: "Vector \<Rightarrow> Vector \<Rightarrow> float" where
  "Dot (a, b, c) (x, y, z) = a * x + b * y + c * z"

fun neg :: "Vector \<Rightarrow> Vector" where
  "neg (a, b, c) = (- a, - b, - c)"

fun DistanceSquared :: "Point \<Rightarrow> Point \<Rightarrow> float" where
  "DistanceSquared (a, b, c) (x, y, z) =
     (a - x) * (a - x) + (b - y) * (b - y) + (c - z) * (c - z)"

definition AbsDot :: "Vector \<Rightarrow> Vector \<Rightarrow> float" where
  "AbsDot v w = \<bar>Dot v w\<bar>"

definition black :: Spectrum where
  "black = (0, 0, 0)"

definition Black :: "Spectrum \<Rightarrow> bool" where
  "Black s = (s = black)"

fun sp_add :: "Spectrum \<Rightarrow> Spectrum \<Rightarrow> Spectrum" where
  "sp_add (a, b, c) (x, y, z) = (a + x, b + y, c + z)"

fun sp_mul :: "Spectrum \<Rightarrow> Spectrum \<Rightarrow> Spectrum" where
  "sp_mul (a, b, c) (x, y, z) = (a * x, b * y, c * z)"

fun sp_scale :: "Spectrum \<Rightarrow> float \<Rightarrow> Spectrum" where
  "sp_scale (a, b, c) k = (a * k, b * k, c * k)"

fun sp_div :: "Spectrum \<Rightarrow> float \<Rightarrow> Spectrum" where
  "sp_div (a, b, c) k = (a / k, b / k, c / k)"


definition INV_TWOPI :: float where
  "INV_TWOPI = 1 / (2 * pi)"

section \<open>Photons and the two lookup processes\<close>

record Photon =
  p :: Point
  alpha :: Spectrum
  wi :: Vector

record RadiancePhoton =
  rp_p :: Point
  rp_n :: Normal
  Lo :: Spectrum

text \<open>The constructor \<^verbatim>\<open>RadiancePhoton(pp, nn)\<close> starts \<^verbatim>\<open>Lo\<close> at zero.\<close>

definition new_RadiancePhoton :: "Point \<Rightarrow> Normal \<Rightarrow> RadiancePhoton" where
  "new_RadiancePhoton pp nn = \<lparr>rp_p = pp, rp_n = nn, Lo = black\<rparr>"

text \<open>
  \<^verbatim>\<open>RadiancePhotonProcess\<close>: the query point and normal, and the pointer \<^verbatim>\<open>photon\<close>
  (\<open>None\<close> is \<^verbatim>\<open>NULL\<close>). The radiance photons of a built map are never written again,
  so the pointer is modelled by the photon it points to.
\<close>

record RadiancePhotonProcess =
  rpp_p :: Point
  rpp_n :: Normal
  photon :: "RadiancePhoton option"

definition new_RadiancePhotonProcess :: "Point \<Rightarrow> Normal \<Rightarrow> RadiancePhotonProcess" where
  "new_RadiancePhotonProcess pp nn = \<lparr>rpp_p = pp, rpp_n = nn, photon = None\<rparr>"

text \<open>
  \<^verbatim>\<open>RadiancePhotonProcess::operator()\<close>. The reference parameter \<^verbatim>\<open>maxDistSquared\<close> is
  passed in and returned beside the process.
\<close>

definition RadiancePhotonProcess_call ::
  "RadiancePhoton \<Rightarrow> float \<Rightarrow> RadiancePhotonProcess \<times> float \<Rightarrow> RadiancePhotonProcess \<times> float" where
  "RadiancePhotonProcess_call rp distSquared st =
     (case st of (proc, maxDistSquared) \<Rightarrow>
        if Dot (rp_n rp) (rpp_n proc) > 0
        then (proc\<lparr>photon := Some rp\<rparr>, distSquared)
        else (proc, maxDistSquared))"

text \<open>
  \<^verbatim>\<open>ClosePhoton\<close> is the pair of \<^verbatim>\<open>distanceSquared\<close> and the pointer \<^verbatim>\<open>photon\<close>, the
  pointer being the index of the photon in the node array of its map. In this order of
  the components \<^verbatim>\<open>ClosePhoton::operator<\<close> (distance first, pointer on a tie) is the
  lexicographic order of pairs.
\<close>

type_synonym ClosePhoton = "float \<times> nat"

abbreviation distanceSquared :: "ClosePhoton \<Rightarrow> float" where
  "distanceSquared \<equiv> fst"


text \<open>
  The heap functions of the C++ standard library on a whole array. The standard fixes
  their results only up to the heap property (the front is a largest element under
  \<^verbatim>\<open>operator<\<close>) and the elements held; the model takes the heap that is the array in
  descending order. \<open>pop_heap\<close> moves the front to the back and leaves a heap before it;
  \<open>push_heap\<close> expects a heap before the last element and sifts that element in.
\<close>

definition make_heap :: "ClosePhoton list \<Rightarrow> ClosePhoton list" where
  "make_heap xs = rev (sort xs)"

definition pop_heap :: "ClosePhoton list \<Rightarrow> ClosePhoton list" where
  "pop_heap xs = (case xs of [] \<Rightarrow> [] | x # r \<Rightarrow> r @ [x])"

definition push_heap :: "ClosePhoton list \<Rightarrow> ClosePhoton list" where
  "push_heap xs = (if xs = [] then [] else rev (insort (last xs) (rev (butlast xs))))"

text \<open>
  \<^verbatim>\<open>PhotonProcess\<close>. \<open>photons\<close> is the caller's array of \<open>nLookup\<close> entries (from
  \<^verbatim>\<open>alloca\<close>, so with arbitrary contents at first); the entries in use are the first
  \<open>foundPhotons\<close>.
\<close>

record PhotonProcess =
  photons :: "ClosePhoton list"
  nLookup :: nat
  foundPhotons :: nat

definition new_PhotonProcess :: "nat \<Rightarrow> ClosePhoton list \<Rightarrow> PhotonProcess" where
  "new_PhotonProcess mp mem = \<lparr>photons = mem, nLookup = mp, foundPhotons = 0\<rparr>"

text \<open>
  \<^verbatim>\<open>PhotonProcess::operator()\<close>. With \<open>nLookup = 0\<close> the C++ reads and writes outside
  the array; the model says nothing useful there (\<open>hd []\<close>), and every theorem below
  asks for \<open>0 < nLookup\<close>.
\<close>

definition PhotonProcess_call ::
  "nat \<Rightarrow> float \<Rightarrow> PhotonProcess \<times> float \<Rightarrow> PhotonProcess \<times> float" where
  "PhotonProcess_call ph distSquared st =
     (case st of (proc, maxDistSquared) \<Rightarrow>
        if foundPhotons proc < nLookup proc then
          (let proc1 = proc\<lparr>photons := (photons proc)[foundPhotons proc := (distSquared, ph)],
                             foundPhotons := foundPhotons proc + 1\<rparr>
           in if foundPhotons proc1 = nLookup proc1
              then (let h = make_heap (photons proc1)
                    in (proc1\<lparr>photons := h\<rparr>, distanceSquared (hd h)))
              else (proc1, maxDistSquared))
        else
          (let h1 = pop_heap (photons proc);
               h2 = h1[nLookup proc - 1 := (distSquared, ph)];
               h3 = push_heap h2
           in (proc\<lparr>photons := h3\<rparr>, distanceSquared (hd h3))))"

text \<open>The entries a process holds: the first \<open>foundPhotons\<close> of its array.\<close>

definition retained :: "PhotonProcess \<Rightarrow> ClosePhoton list" where
  "retained proc = take (foundPhotons proc) (photons proc)"

text \<open>
  Modelled from the spec: \<^verbatim>\<open>KdTree::Lookup\<close> of \<^verbatim>\<open>kdtree.h\<close>, which is not among the
  sources. The spec gives it as a bounded radius search that hands candidates to a
  process object together with the current maximum squared distance, which the process
  may lower. \<open>Lookup\<close> takes the candidates in the order the tree visits them, each with
  its squared distance to the query point, and calls the process on a candidate only
  when that distance is below the current maximum.
\<close>

fun Lookup :: "('c \<Rightarrow> float \<Rightarrow> 's \<times> float \<Rightarrow> 's \<times> float) \<Rightarrow> ('c \<times> float) list \<Rightarrow>
    's \<times> float \<Rightarrow> 's \<times> float" where
  "Lookup process [] st = st"
| "Lookup process (c # cs) st =
     Lookup process cs (if snd c < snd st then process (fst c) (snd c) st else st)"

text \<open>Calling a process on every candidate of a sequence, with no test in between.\<close>

fun call_all :: "('c \<Rightarrow> float \<Rightarrow> 's \<times> float \<Rightarrow> 's \<times> float) \<Rightarrow> ('c \<times> float) list \<Rightarrow>
    's \<times> float \<Rightarrow> 's \<times> float" where
  "call_all process [] st = st"
| "call_all process (c # cs) st = call_all process cs (process (fst c) (snd c) st)"

section \<open>The median-cut environment light\<close>

text \<open>
  The scene overload of \<^verbatim>\<open>MedianCutEnvironmentLight::Sample_L\<close>. Its whole body is
  \<^verbatim>\<open>return 0;\<close>. The arguments it reads are gathered in \<open>sample_args\<close>, the three output
  parameters \<^verbatim>\<open>ray\<close>, \<^verbatim>\<open>Ns\<close>, \<^verbatim>\<open>pdf\<close> in \<open>sample_outs\<close>, whose contents before the call are
  whatever the caller left there; the function returns the spectrum and the outputs
  after the call.
\<close>

record sample_args =
  ls_uPos :: "float \<times> float"
  ls_uComponent :: float
  arg_u1 :: float
  arg_u2 :: float
  arg_time :: float

record sample_outs =
  out_ray :: "Point \<times> Vector"
  out_Ns :: Normal
  out_pdf :: float

definition Sample_L :: "sample_args \<Rightarrow> sample_outs \<Rightarrow> Spectrum \<times> sample_outs" where
  "Sample_L args outs = (black, outs)"

definition Pdf :: "Point \<Rightarrow> Vector \<Rightarrow> float" where
  "Pdf pt w = 0"

text \<open>
  The invariant of a \<open>PhotonProcess\<close> with bound \<open>k\<close> that a lookup of radius \<open>R\<close> has
  offered the candidates \<open>elig\<close> (those within the radius, in the order of the visit):
  below \<open>k\<close> candidates the array holds them in order and the radius is untouched; from
  \<open>k\<close> on the array is a heap of candidates, the radius is the distance of its front,
  and no candidate left out is nearer than the radius.
\<close>

definition pp_inv :: "nat \<Rightarrow> float \<Rightarrow> (nat \<times> float) list \<Rightarrow> PhotonProcess \<times> float \<Rightarrow> bool" where
  "pp_inv k R elig st =
     (case st of (proc, md2) \<Rightarrow>
        length (photons proc) = k \<and> nLookup proc = k \<and>
        foundPhotons proc = min k (length elig) \<and> list_all (\<lambda>c. snd c < R) elig \<and>
        (if length elig < k then md2 = R \<and> retained proc = map prod.swap elig
         else sorted (rev (photons proc)) \<and> md2 = fst (hd (photons proc)) \<and>
              mset (photons proc) \<subseteq># mset (map prod.swap elig) \<and>
              (\<forall>x \<in># mset (map prod.swap elig) - mset (photons proc). md2 \<le> fst x)))"

section \<open>Photon shooting: \<^verbatim>\<open>VolumePhotonMap::Surface_Preprocess\<close>\<close>

text \<open>
  What the photon map takes from the rest of the renderer and does not define itself:
  the luminance \<^verbatim>\<open>Spectrum::y\<close>, \<^verbatim>\<open>UniformSampleSphere\<close>, \<^verbatim>\<open>Normalize\<close>, the order in
  which a kd-tree visits its nodes for a query point (as indices into the node array),
  and the contents of freshly allocated stack memory.
\<close>

record scene_env =
  spectrum_y :: "Spectrum \<Rightarrow> float"
  UniformSampleSphere :: "float \<Rightarrow> float \<Rightarrow> Vector"
  Normalize :: "Vector \<Rightarrow> Vector"
  visit :: "Point \<Rightarrow> Photon list \<Rightarrow> nat list"
  alloca_contents :: ClosePhoton

text \<open>
  The fields that \<^verbatim>\<open>Surface_Init\<close> and \<^verbatim>\<open>Volume_Init\<close> set from the parameters and that
  are only read afterwards. The three targets are \<^verbatim>\<open>u_int\<close>, below \<open>2 ^ 32\<close>.
\<close>

record config =
  nCausticPhotons :: nat
  nIndirectPhotons :: nat
  nVolumePhotons :: nat
  vpm_nLookup :: nat
  maxDistSquared :: float
  finalGather :: bool

datatype category = Caustic | Indirect | Volume | Direct | Radiance

text \<open>
  The state of one run of \<^verbatim>\<open>Surface_Preprocess\<close>: the fields of the object it writes
  (the maps, \<open>None\<close> for \<^verbatim>\<open>NULL\<close>, a built kd-tree being the list of its nodes; the three
  path counts; \<^verbatim>\<open>alreadyPreprocessed\<close>) and its local variables. \<open>constructed\<close> is not
  in the C++: it records every construction of a \<^verbatim>\<open>KdTree\<close> with the value \<open>nshot\<close> had
  at that moment and the number of entries the tree was built from, so that "built once,
  on reaching the target" can be stated.
\<close>

record shoot_state =
  alreadyPreprocessed :: bool
  nshot :: nat
  causticPhotons :: "Photon list"
  indirectPhotons :: "Photon list"
  directPhotons :: "Photon list"
  volumePhotons :: "Photon list"
  radiancePhotons :: "RadiancePhoton list"
  rpReflectances :: "Spectrum list"
  rpTransmittances :: "Spectrum list"
  causticDone :: bool
  indirectDone :: bool
  volumeDone :: bool
  nCausticPaths :: int
  nIndirectPaths :: int
  nVolumePaths :: int
  causticMap :: "Photon list option"
  indirectMap :: "Photon list option"
  volumeMap :: "Photon list option"
  radianceMap :: "RadiancePhoton list option"
  constructed :: "(category \<times> nat \<times> nat) list"

text \<open>
  \<^verbatim>\<open>Surface_Init\<close> in a program that has shot no photon yet: the maps are null, nothing
  is preprocessed. The three path counts are not initialised by the C++; \<open>g\<close> is what
  they happen to hold.
\<close>

definition Surface_Init :: "int \<Rightarrow> shoot_state" where
  "Surface_Init g =
     \<lparr>alreadyPreprocessed = False, nshot = 0,
      causticPhotons = [], indirectPhotons = [], directPhotons = [], volumePhotons = [],
      radiancePhotons = [], rpReflectances = [], rpTransmittances = [],
      causticDone = False, indirectDone = False, volumeDone = False,
      nCausticPaths = g, nIndirectPaths = g, nVolumePaths = g,
      causticMap = None, indirectMap = None, volumeMap = None, radianceMap = None,
      constructed = []\<rparr>"

text \<open>
  What the scene, the lights, the surfaces, the medium and the random number generator
  answer during one run is given as a script. One \<open>march\<close> is one call of \<^verbatim>\<open>RayMarch\<close>
  inside \<^verbatim>\<open>TraceThrough\<close>, with the random numbers drawn after it: whether the march
  ended inside the segment (\<^verbatim>\<open>t0 < t1\<close>), the point \<^verbatim>\<open>loc\<close>, the transmittance it
  multiplies into \<^verbatim>\<open>alpha\<close>, the coefficients \<^verbatim>\<open>sigma_s\<close> and \<^verbatim>\<open>sigma_t\<close> at \<^verbatim>\<open>loc\<close>, the draw
  compared with the albedo, and the two draws for the new direction.
\<close>

record march =
  m_interacts :: bool
  m_loc :: Point
  m_transmittance :: Spectrum
  m_sigma_s :: Spectrum
  m_sigma_t :: Spectrum
  m_uAbsorb :: float
  m_u1 :: float
  m_u2 :: float

text \<open>
  One call of \<^verbatim>\<open>TraceThrough\<close>: there is no volume region; or the test
  \<^verbatim>\<open>marchRay.mint > ray.maxt\<close> succeeds; or the marching loop runs over the given marches
  (the list ends where \<^verbatim>\<open>IntersectP\<close> fails) and the final \<^verbatim>\<open>scene->Intersect\<close> either
  misses or hits at a point.
\<close>

datatype trace_script = NoVolume | SurfaceInFront | Marched "march list" "Point option"

text \<open>
  One turn of the loop over intersections: the hit point of \<^verbatim>\<open>scene->Intersect\<close>, the
  script of \<^verbatim>\<open>TraceThrough\<close>, \<^verbatim>\<open>scene->Transmittance\<close>, the geometric and the shading
  normal, the numbers of all and of specular components of the BSDF, the draw compared
  with \<^verbatim>\<open>.125f\<close>, the two hemispherical reflectances, the result of \<^verbatim>\<open>Sample_f\<close> (value,
  direction, pdf, whether the sampled component is specular), and the draw for the
  Russian roulette.
\<close>

record bounce =
  b_p :: Point
  b_trace :: trace_script
  b_sceneTransmittance :: Spectrum
  b_nn :: Normal
  b_shading_nn :: Normal
  b_nComponents :: nat
  b_nSpecular :: nat
  b_uRadiance :: float
  b_rho_r :: Spectrum
  b_rho_t :: Spectrum
  b_fr :: Spectrum
  b_wi :: Vector
  b_pdf :: float
  b_specular :: bool
  b_uRoulette :: float

text \<open>
  One turn of the shooting loop: the result of \<^verbatim>\<open>light->Sample_L\<close> (radiance, pdf, the
  direction of the photon ray), the pdf of the chosen light, and the intersections the
  path meets (the list ends where \<^verbatim>\<open>scene->Intersect\<close> misses).
\<close>

record shot =
  s_L :: Spectrum
  s_pdf :: float
  s_lightPdf :: float
  s_d :: Vector
  s_bounces :: "bounce list"

text \<open>The local variables of one photon path.\<close>

record path_state =
  ps_alpha :: Spectrum
  ps_d :: Vector
  specularPath :: bool
  nIntersections :: nat



text \<open>
  The three places that store a photon of a category with a target; each is written out
  as in the source. The volume one is in \<^verbatim>\<open>TraceThrough\<close> and takes the shot number as
  its parameter \<^verbatim>\<open>shot\<close>.
\<close>

definition store_volume :: "config \<Rightarrow> int \<Rightarrow> Photon \<Rightarrow> shoot_state \<Rightarrow> shoot_state" where
  "store_volume cfg shot ph s =
     (if \<not> volumeDone s then
        (let s1 = s\<lparr>volumePhotons := volumePhotons s @ [ph]\<rparr>
         in if nVolumePhotons cfg = length (volumePhotons s1)
            then s1\<lparr>volumeDone := True, nVolumePaths := shot,
                    volumeMap := Some (volumePhotons s1),
                    constructed := constructed s1 @
                      [(Volume, nshot s1, length (volumePhotons s1))]\<rparr>
            else s1)
      else s)"

definition store_caustic :: "config \<Rightarrow> Photon \<Rightarrow> shoot_state \<Rightarrow> shoot_state" where
  "store_caustic cfg ph s =
     (if \<not> causticDone s then
        (let s1 = s\<lparr>causticPhotons := causticPhotons s @ [ph]\<rparr>
         in if length (causticPhotons s1) = nCausticPhotons cfg
            then s1\<lparr>causticDone := True, nCausticPaths := int (nshot s1),
                    causticMap := Some (causticPhotons s1),
                    constructed := constructed s1 @
                      [(Caustic, nshot s1, length (causticPhotons s1))]\<rparr>
            else s1)
      else s)"

definition store_indirect :: "config \<Rightarrow> Photon \<Rightarrow> shoot_state \<Rightarrow> shoot_state" where
  "store_indirect cfg ph s =
     (if \<not> indirectDone s then
        (let s1 = s\<lparr>indirectPhotons := indirectPhotons s @ [ph]\<rparr>
         in if length (indirectPhotons s1) = nIndirectPhotons cfg
            then s1\<lparr>indirectDone := True, nIndirectPaths := int (nshot s1),
                    indirectMap := Some (indirectPhotons s1),
                    constructed := constructed s1 @
                      [(Indirect, nshot s1, length (indirectPhotons s1))]\<rparr>
            else s1)
      else s)"

text \<open>
  The end of \<^verbatim>\<open>RayMarch\<close>: \<^verbatim>\<open>alpha\<close> is multiplied by the transmittance, the albedo is the
  ratio of the two luminances, and the result says whether the march ended inside the
  segment. The stepping before it is in the script.
\<close>

definition RayMarch :: "scene_env \<Rightarrow> march \<Rightarrow> Spectrum \<Rightarrow> bool \<times> Spectrum \<times> float" where
  "RayMarch env m a =
     (m_interacts m, sp_mul a (m_transmittance m),
      spectrum_y env (m_sigma_s m) / spectrum_y env (m_sigma_t m))"

text \<open>
  The body of the marching loop of \<^verbatim>\<open>TraceThrough\<close> after a march that ended inside the
  segment, on the weight \<open>a\<close> and albedo that \<^verbatim>\<open>RayMarch\<close> left: the result says whether
  the path goes on, with the new weight, direction of \<^verbatim>\<open>marchRay\<close> and state.
\<close>

definition volume_interaction ::
  "scene_env \<Rightarrow> config \<Rightarrow> int \<Rightarrow> march \<Rightarrow> float \<Rightarrow> Spectrum \<times> Vector \<times> shoot_state \<Rightarrow>
     bool \<times> Spectrum \<times> Vector \<times> shoot_state" where
  "volume_interaction env cfg shot m albedo st =
     (case st of (a, d, s) \<Rightarrow>
        (let s1 = store_volume cfg shot \<lparr>p = m_loc m, alpha = a, wi = neg d\<rparr> s
         in if albedo < m_uAbsorb m then (False, a, d, s1)
            else (True, sp_scale a (INV_TWOPI / 2),
                  Normalize env (UniformSampleSphere env (m_u1 m) (m_u2 m)), s1)))"

text \<open>
  The marching loop. The first component of the result is \<open>False\<close> when the photon was
  absorbed (\<^verbatim>\<open>return false\<close> inside the loop).
\<close>

fun trace_loop ::
  "scene_env \<Rightarrow> config \<Rightarrow> int \<Rightarrow> march list \<Rightarrow> Spectrum \<times> Vector \<times> shoot_state \<Rightarrow>
     bool \<times> Spectrum \<times> Vector \<times> shoot_state" where
  "trace_loop env cfg shot [] st = (True, st)"
| "trace_loop env cfg shot (m # ms) st =
     (case st of (a, d, s) \<Rightarrow>
        (case RayMarch env m a of (inside, a1, albedo) \<Rightarrow>
           if \<not> inside then (True, a1, d, s)
           else (case volume_interaction env cfg shot m albedo (a1, d, s) of
                   (goes_on, st1) \<Rightarrow>
                     if goes_on then trace_loop env cfg shot ms st1 else (False, st1))))"

text \<open>
  \<^verbatim>\<open>TraceThrough\<close>: the result, the weight, the direction of the photon ray and the hit
  point of \<^verbatim>\<open>isect\<close> after the call, and the state.
\<close>

definition TraceThrough ::
  "scene_env \<Rightarrow> config \<Rightarrow> trace_script \<Rightarrow> Spectrum \<Rightarrow> Vector \<Rightarrow> Point \<Rightarrow> int \<Rightarrow> shoot_state \<Rightarrow>
     bool \<times> Spectrum \<times> Vector \<times> Point \<times> shoot_state" where
  "TraceThrough env cfg ts a d isect shot s =
     (case ts of
        NoVolume \<Rightarrow> (True, a, d, isect, s)
      | SurfaceInFront \<Rightarrow> (True, a, d, isect, s)
      | Marched ms final \<Rightarrow>
          (case trace_loop env cfg shot ms (a, d, s) of
             (goes_on, a1, d1, s1) \<Rightarrow>
               if \<not> goes_on then (False, a1, d1, isect, s1)
               else (case final of
                       None \<Rightarrow> (False, a1, d1, isect, s1)
                     | Some q \<Rightarrow> (True, a1, d1, q, s1))))"

text \<open>
  The deposit of a photon at a surface with a non-specular component: the direct set at
  the first intersection, else the caustic or the indirect set by \<^verbatim>\<open>specularPath\<close>.
\<close>

definition deposit_surface :: "config \<Rightarrow> nat \<Rightarrow> bool \<Rightarrow> Photon \<Rightarrow> shoot_state \<Rightarrow> shoot_state" where
  "deposit_surface cfg nInt specPath ph s =
     (if nInt = 1 then s\<lparr>directPhotons := directPhotons s @ [ph]\<rparr>
      else if specPath then store_caustic cfg ph s
      else store_indirect cfg ph s)"

text \<open>The radiance photon stored with probability one in eight under final gathering.\<close>

definition deposit_radiance ::
  "config \<Rightarrow> bounce \<Rightarrow> Point \<Rightarrow> Vector \<Rightarrow> shoot_state \<Rightarrow> shoot_state" where
  "deposit_radiance cfg b hit d s =
     (if finalGather cfg \<and> b_uRadiance b < 1 / 8 then
        (let n = (if Dot (b_nn b) d > 0 then neg (b_nn b) else b_nn b)
         in s\<lparr>radiancePhotons := radiancePhotons s @ [new_RadiancePhoton hit n],
               rpReflectances := rpReflectances s @ [b_rho_r b],
               rpTransmittances := rpTransmittances s @ [b_rho_t b]\<rparr>)
      else s)"

text \<open>
  One turn of the loop over the intersections of a path. \<open>None\<close> for the path state is a
  \<^verbatim>\<open>break\<close>.
\<close>

definition bounce_step ::
  "scene_env \<Rightarrow> config \<Rightarrow> bounce \<Rightarrow> path_state \<Rightarrow> shoot_state \<Rightarrow> path_state option \<times> shoot_state" where
  "bounce_step env cfg b ps s =
     (let n = nIntersections ps + 1
      in case TraceThrough env cfg (b_trace b) (ps_alpha ps) (ps_d ps) (b_p b) (int (nshot s)) s of
           (ok, a0, d, hit, s1) \<Rightarrow>
             if \<not> ok then (None, s1)
             else
               (let a1 = sp_mul a0 (b_sceneTransmittance b);
                    wo = neg d;
                    hasNonSpecular = (b_nComponents b > b_nSpecular b);
                    s2 = (if hasNonSpecular
                          then deposit_radiance cfg b hit d
                                 (deposit_surface cfg n (specularPath ps)
                                    \<lparr>p = hit, alpha = a1, wi = wo\<rparr> s1)
                          else s1)
                in if Black (b_fr b) \<or> b_pdf b = 0 then (None, s2)
                   else
                     (let anew = sp_div (sp_scale (sp_mul a1 (b_fr b))
                                   (AbsDot (b_wi b) (b_shading_nn b))) (b_pdf b);
                          continueProb = min 1 (spectrum_y env anew / spectrum_y env a1)
                      in if b_uRoulette b > continueProb \<or> n > 10 then (None, s2)
                         else (Some \<lparr>ps_alpha = sp_div anew continueProb, ps_d = b_wi b,
                                     specularPath = ((n = 1 \<or> specularPath ps) \<and> b_specular b),
                                     nIntersections = n\<rparr>, s2))))"

text \<open>The loop over the intersections of one path.\<close>

fun follow_path ::
  "scene_env \<Rightarrow> config \<Rightarrow> bounce list \<Rightarrow> path_state \<Rightarrow> shoot_state \<Rightarrow> shoot_state" where
  "follow_path env cfg [] ps s = s"
| "follow_path env cfg (b # bs) ps s =
     (case bounce_step env cfg b ps s of
        (None, s1) \<Rightarrow> s1
      | (Some ps1, s1) \<Rightarrow> follow_path env cfg bs ps1 s1)"

text \<open>
  The path state after the given intersections, when none of them ended the path: the
  same steps as \<open>follow_path\<close>, kept to speak about the variables of a path under way.
\<close>

fun path_after ::
  "scene_env \<Rightarrow> config \<Rightarrow> bounce list \<Rightarrow> path_state \<Rightarrow> shoot_state \<Rightarrow>
     (path_state \<times> shoot_state) option" where
  "path_after env cfg [] ps s = Some (ps, s)"
| "path_after env cfg (b # bs) ps s =
     (case bounce_step env cfg b ps s of
        (None, s1) \<Rightarrow> None
      | (Some ps1, s1) \<Rightarrow> path_after env cfg bs ps1 s1)"

definition new_path :: "Spectrum \<Rightarrow> Vector \<Rightarrow> path_state" where
  "new_path a d = \<lparr>ps_alpha = a, ps_d = d, specularPath = False, nIntersections = 0\<rparr>"

text \<open>The body of the shooting loop after the test for giving up.\<close>

definition shoot_photon :: "scene_env \<Rightarrow> config \<Rightarrow> shot \<Rightarrow> shoot_state \<Rightarrow> shoot_state" where
  "shoot_photon env cfg sh s =
     (if s_pdf sh = 0 \<or> Black (s_L sh) then s
      else
        (let a = sp_div (s_L sh) (s_pdf sh * s_lightPdf sh)
         in if \<not> Black a then follow_path env cfg (s_bounces sh) (new_path a (s_d sh)) s
            else s))"




section \<open>Radiance precomputation\<close>

text \<open>The candidates of a lookup around \<open>pt\<close> in a map with the given nodes.\<close>

definition candidates :: "scene_env \<Rightarrow> Photon list \<Rightarrow> Point \<Rightarrow> (nat \<times> float) list" where
  "candidates env nodes pt =
     map (\<lambda>i. (i, DistanceSquared (p (nodes ! i)) pt)) (visit env pt nodes)"

definition alloca :: "scene_env \<Rightarrow> nat \<Rightarrow> ClosePhoton list" where
  "alloca env n = replicate n (alloca_contents env)"







text \<open>
  \<^verbatim>\<open>Surface_Preprocess\<close> on an object in state \<open>obj\<close> for a scene with \<open>nLights\<close> lights.
  The local variables start empty and a category with target zero starts done. The shot
  counter \<^verbatim>\<open>nshot\<close> is a static variable: it is not reset here, and is zero in the state
  \<open>Surface_Init\<close> gives, the state of a program that has shot no photon yet.
\<close>

definition start_shooting :: "config \<Rightarrow> shoot_state \<Rightarrow> shoot_state" where
  "start_shooting cfg obj =
     obj\<lparr>alreadyPreprocessed := True,
         causticPhotons := [], indirectPhotons := [], directPhotons := [],
         volumePhotons := [], radiancePhotons := [], rpReflectances := [],
         rpTransmittances := [],
         causticDone := (nCausticPhotons cfg = 0),
         indirectDone := (nIndirectPhotons cfg = 0),
         volumeDone := (nVolumePhotons cfg = 0)\<rparr>"


section \<open>The neighbour sample of the final gather in \<^verbatim>\<open>Surface_Li\<close>\<close>

text \<open>
  The loop that doubles the search radius until 50 photons are found. It has no bound
  in the C++; \<open>fuel\<close> bounds the number of turns, and \<open>None\<close> says that the loop was still
  running when the fuel ran out. The lookup on a null map is a crash.
\<close>

datatype gather_result = Found PhotonProcess float | NullDereference

definition nIndirSamplePhotons :: nat where
  "nIndirSamplePhotons = 50"

fun gather_search ::
  "nat \<Rightarrow> scene_env \<Rightarrow> Photon list option \<Rightarrow> Point \<Rightarrow> PhotonProcess \<Rightarrow> float \<Rightarrow>
     gather_result option" where
  "gather_search 0 env kdmap pt proc searchDist2 = None"
| "gather_search (Suc fuel) env kdmap pt proc searchDist2 =
     (if foundPhotons proc < nIndirSamplePhotons then
        (case kdmap of
           None \<Rightarrow> Some NullDereference
         | Some nodes \<Rightarrow>
             (case Lookup PhotonProcess_call (candidates env nodes pt)
                     (proc\<lparr>foundPhotons := 0\<rparr>, searchDist2) of
                (proc1, md2) \<Rightarrow> gather_search fuel env kdmap pt proc1 (searchDist2 * 2)))
      else Some (Found proc searchDist2))"

definition start_gather_search ::
  "nat \<Rightarrow> scene_env \<Rightarrow> config \<Rightarrow> Photon list option \<Rightarrow> Point \<Rightarrow> gather_result option" where
  "start_gather_search fuel env cfg kdmap pt =
     gather_search fuel env kdmap pt
       (new_PhotonProcess nIndirSamplePhotons (alloca env nIndirSamplePhotons))
       (maxDistSquared cfg)"

section \<open>Invariants of the shooting loop\<close>










text \<open>
  Two states agree on the surface photons when the direct, caustic and indirect sets
  and the two completion flags of the surface categories are the same.
\<close>

definition same_surface :: "shoot_state \<Rightarrow> shoot_state \<Rightarrow> bool" where
  "same_surface s s' =
     (directPhotons s' = directPhotons s \<and> causticPhotons s' = causticPhotons s \<and>
      indirectPhotons s' = indirectPhotons s \<and> causticDone s' = causticDone s \<and>
      indirectDone s' = indirectDone s)"

section \<open>A concrete scene\<close>

text \<open>
  Inputs on which the definitions are run: an environment whose luminance is the second
  coefficient and whose kd-trees visit their nodes in stored order; a diffuse and a
  mirror surface, both passing the Russian roulette; a march that ends in absorption; a
  shot along given intersections and a shot whose light sample has pdf zero.
\<close>

definition env0 :: scene_env where
  "env0 = \<lparr>spectrum_y = (\<lambda>s. fst (snd s)), UniformSampleSphere = (\<lambda>u1 u2. (0, 0, 1)),
           Normalize = (\<lambda>v. v), visit = (\<lambda>pt nodes. [0..<length nodes]),
           alloca_contents = (0, 0)\<rparr>"

definition diffuse_bounce :: "Point \<Rightarrow> bounce" where
  "diffuse_bounce hit =
     \<lparr>b_p = hit, b_trace = NoVolume, b_sceneTransmittance = (1, 1, 1), b_nn = (0, 0, 1),
      b_shading_nn = (0, 0, 1), b_nComponents = 1, b_nSpecular = 0, b_uRadiance = 0,
      b_rho_r = (1 / 2, 1 / 2, 1 / 2), b_rho_t = black, b_fr = (1, 1, 1), b_wi = (0, 0, 1),
      b_pdf = 1, b_specular = False, b_uRoulette = 0\<rparr>"

definition mirror_bounce :: "Point \<Rightarrow> bounce" where
  "mirror_bounce hit = (diffuse_bounce hit)\<lparr>b_nSpecular := 1, b_specular := True\<rparr>"


definition shot_along :: "bounce list \<Rightarrow> shot" where
  "shot_along bs = \<lparr>s_L = (1, 1, 1), s_pdf = 1, s_lightPdf = 1, s_d = (0, 0, - 1), s_bounces = bs\<rparr>"

definition idle_shot :: shot where
  "idle_shot = (shot_along [])\<lparr>s_pdf := 0\<rparr>"

definition cfg_w :: config where
  "cfg_w = \<lparr>nCausticPhotons = 1, nIndirectPhotons = 1, nVolumePhotons = 1, vpm_nLookup = 1,
            maxDistSquared = 4, finalGather = True\<rparr>"



definition lone_photon :: Photon where
  "lone_photon = \<lparr>p = (1, 0, 0), alpha = (1, 1, 1), wi = (0, 0, 1)\<rparr>"



definition s_w :: shoot_state where
  "s_w = (start_shooting cfg_w (Surface_Init 0))\<lparr>nshot := 1\<rparr>"

definition after_mirror :: path_state where
  "after_mirror = \<lparr>ps_alpha = (1, 1, 1), ps_d = (0, 0, 1), specularPath = True, nIntersections = 1\<rparr>"

section \<open>Properties of the lookup processes\<close>

subsection \<open>The radiance-photon process\<close>

lemma rp_call_pair:
  "RadiancePhotonProcess_call rp d (proc, md2) =
     (if Dot (rp_n rp) (rpp_n proc) > 0 then (proc\<lparr>photon := Some rp\<rparr>, d) else (proc, md2))"
  by (simp add: RadiancePhotonProcess_call_def)

lemma Lookup_rp_inv:
  assumes "Lookup RadiancePhotonProcess_call cands (proc0, R0) = (proc, md2)"
  shows "rpp_n proc = rpp_n proc0 \<and> md2 \<le> R0"
  using assms
proof (induction cands arbitrary: proc0 R0)
  case Nil
  then show ?case by simp
next
  case (Cons c cs)
  show ?case
  proof (cases "snd c < R0 \<and> Dot (rp_n (fst c)) (rpp_n proc0) > 0")
    case True
    with Cons.prems have "Lookup RadiancePhotonProcess_call cs (proc0\<lparr>photon := Some (fst c)\<rparr>, snd c) = (proc, md2)"
      by (simp add: rp_call_pair)
    from Cons.IH [OF this] True show ?thesis by simp
  next
    case False
    with Cons.prems have "Lookup RadiancePhotonProcess_call cs (proc0, R0) = (proc, md2)"
      by (auto simp add: rp_call_pair split: if_splits)
    from Cons.IH [OF this] show ?thesis .
  qed
qed

lemma Lookup_rp_nearest:
  assumes "Lookup RadiancePhotonProcess_call cands (proc0, R0) = (proc, md2)"
  shows "(filter (\<lambda>c. Dot (rp_n (fst c)) (rpp_n proc0) > 0 \<and> snd c < R0) cands = []
            \<longrightarrow> photon proc = photon proc0 \<and> md2 = R0) \<and>
         (filter (\<lambda>c. Dot (rp_n (fst c)) (rpp_n proc0) > 0 \<and> snd c < R0) cands \<noteq> []
            \<longrightarrow> (\<exists>rp. photon proc = Some rp \<and> (rp, md2) \<in> set cands \<and> Dot (rp_n rp) (rpp_n proc0) > 0 \<and> md2 < R0)) \<and>
         (\<forall>c \<in> set cands. Dot (rp_n (fst c)) (rpp_n proc0) > 0 \<longrightarrow> md2 \<le> snd c)"
  using assms
proof (induction cands arbitrary: proc0 R0)
  case Nil
  then show ?case by simp
next
  case (Cons c cs)
  show ?case
  proof (cases "snd c < R0 \<and> Dot (rp_n (fst c)) (rpp_n proc0) > 0")
    case True
    with Cons.prems have run: "Lookup RadiancePhotonProcess_call cs (proc0\<lparr>photon := Some (fst c)\<rparr>, snd c) = (proc, md2)"
      by (simp add: rp_call_pair)
    from Cons.IH [OF run] Lookup_rp_inv [OF run] True show ?thesis
      by (cases c) (auto split: if_splits)
  next
    case False
    with Cons.prems have run: "Lookup RadiancePhotonProcess_call cs (proc0, R0) = (proc, md2)"
      by (auto simp add: rp_call_pair split: if_splits)
    from Cons.IH [OF run] Lookup_rp_inv [OF run] False show ?thesis
      by (cases c) (auto split: if_splits)
  qed
qed

subsection \<open>The photon process under a lookup\<close>

lemma pp_call_pair:
  "PhotonProcess_call ph d (proc, md2) =
     (if foundPhotons proc < nLookup proc then
          (let proc1 = proc\<lparr>photons := (photons proc)[foundPhotons proc := (d, ph)],
                             foundPhotons := foundPhotons proc + 1\<rparr>
           in if foundPhotons proc1 = nLookup proc1
              then (let h = make_heap (photons proc1)
                    in (proc1\<lparr>photons := h\<rparr>, fst (hd h)))
              else (proc1, md2))
        else
          (let h1 = pop_heap (photons proc);
               h2 = h1[nLookup proc - 1 := (d, ph)];
               h3 = push_heap h2
           in (proc\<lparr>photons := h3\<rparr>, fst (hd h3))))"
  by (simp add: PhotonProcess_call_def)

lemma make_heap_props:
  "sorted (rev (make_heap xs))" "mset (make_heap xs) = mset xs" "length (make_heap xs) = length xs"
  by (simp_all add: make_heap_def)

lemma evict_eq:
  "push_heap ((pop_heap (m # r))[length r := c]) = rev (insort c (rev r))"
  by (simp add: pop_heap_def push_heap_def)

lemma desc_hd_ge:
  "sorted (rev xs) \<Longrightarrow> x \<in> set xs \<Longrightarrow> x \<le> hd xs"
  by (cases xs) (auto simp: sorted_append)

lemma fst_mono_pair: "(x :: real \<times> nat) \<le> y \<Longrightarrow> fst x \<le> fst y"
  by (auto simp: less_eq_prod_def)

lemma desc_hd_fst_ge:
  "sorted (rev xs) \<Longrightarrow> x \<in> set xs \<Longrightarrow> fst x \<le> fst (hd (xs :: (real \<times> nat) list))"
  by (rule fst_mono_pair) (rule desc_hd_ge)

lemma desc_hd_Max:
  assumes "sorted (rev xs)" "xs \<noteq> []"
  shows "fst (hd xs) = Max (fst ` set (xs :: (real \<times> nat) list))"
proof -
  have "hd xs \<in> set xs" using assms(2) by simp
  then have "fst (hd xs) \<in> fst ` set xs" by (rule imageI)
  moreover have "\<forall>y \<in> fst ` set xs. y \<le> fst (hd xs)"
    using desc_hd_fst_ge [OF assms(1)] by auto
  ultimately show ?thesis by (intro Max_eqI [symmetric]) auto
qed

lemma pp_inv_fill:
  assumes inv: "pp_inv k R elig (proc, md2)" and lt: "length elig < k" and d: "snd c < R"
  shows "pp_inv k R (elig @ [c]) (PhotonProcess_call (fst c) (snd c) (proc, md2))"
proof -
  from inv lt have len: "length (photons proc) = k" and nl: "nLookup proc = k"
    and fp: "foundPhotons proc = length elig" and all: "list_all (\<lambda>c. snd c < R) elig"
    and md: "md2 = R" and ret: "take (length elig) (photons proc) = map prod.swap elig"
    by (auto simp: pp_inv_def retained_def)
  let ?arr = "(photons proc)[length elig := (snd c, fst c)]"
  have ret': "take (Suc (length elig)) ?arr = map prod.swap (elig @ [c])"
    using lt len ret by (cases c) (simp add: take_Suc_conv_app_nth)
  have all': "list_all (\<lambda>c. snd c < R) (elig @ [c])" using all d by simp
  show ?thesis
  proof (cases "Suc (length elig) = k")
    case True
    then have arr: "?arr = map prod.swap (elig @ [c])" using ret' len by simp
    have hdin: "hd (make_heap ?arr) \<in> set (make_heap ?arr)"
      using True len make_heap_props(3) [of ?arr] by (cases "make_heap ?arr") auto
    show ?thesis
      using True len nl fp all' lt make_heap_props [of ?arr] arr
      by (simp add: pp_inv_def pp_call_pair Let_def)
  next
    case False
    with lt have "Suc (length elig) < k" by simp
    then show ?thesis
      using len nl fp all' ret' md
      by (simp add: pp_inv_def pp_call_pair Let_def retained_def)
  qed
qed

lemma pp_inv_full:
  assumes inv: "pp_inv k R elig (proc, md2)" and ge: "k \<le> length elig" and k: "0 < k"
  shows "length (photons proc) = k" "nLookup proc = k" "foundPhotons proc = k"
    "list_all (\<lambda>c. snd c < R) elig" "sorted (rev (photons proc))"
    "md2 = fst (hd (photons proc))" "mset (photons proc) \<subseteq># mset (map prod.swap elig)"
    "\<forall>x \<in># mset (map prod.swap elig) - mset (photons proc). md2 \<le> fst x"
    "photons proc \<noteq> []"
  using inv ge k by (auto simp: pp_inv_def)

lemma sub_add_right: "P \<subseteq># E \<Longrightarrow> P \<subseteq># add_mset x E"
  by (rule subset_mset.order_trans [where y = E]) simp_all

lemma sub_drop_left: "add_mset m r \<subseteq># E \<Longrightarrow> r \<subseteq># E"
  by (rule subset_mset.order_trans [where y = "add_mset m r"]) simp_all

lemma diff_add_right: "P \<subseteq># E \<Longrightarrow> add_mset x E - P = add_mset x (E - P)"
proof (rule multiset_eqI)
  fix a
  assume "P \<subseteq># E"
  then have "count P a \<le> count E a" by (rule mset_subset_eq_count)
  then show "count (add_mset x E - P) a = count (add_mset x (E - P)) a"
    by (cases "a = x") auto
qed

lemma diff_drop_left: "add_mset m r \<subseteq># E \<Longrightarrow> E - r = add_mset m (E - add_mset m r)"
proof (rule multiset_eqI)
  fix a
  assume "add_mset m r \<subseteq># E"
  then have "count (add_mset m r) a \<le> count E a" by (rule mset_subset_eq_count)
  then show "count (E - r) a = count (add_mset m (E - add_mset m r)) a"
    by (cases "a = m") auto
qed

lemma pp_inv_keep:
  assumes inv: "pp_inv k R elig (proc, md2)" and ge: "k \<le> length elig" and k: "0 < k"
    and d: "snd c < R" and far: "md2 \<le> snd c"
  shows "pp_inv k R (elig @ [c]) (proc, md2)"
proof -
  note f = pp_inv_full [OF inv ge k]
  define E where "E = mset (map prod.swap elig)"
  have E': "mset (map prod.swap (elig @ [c])) = add_mset (prod.swap c) E"
    by (simp add: E_def)
  have sub: "mset (photons proc) \<subseteq># add_mset (prod.swap c) E"
    using f(7) unfolding E_def by (rule sub_add_right)
  have diff: "add_mset (prod.swap c) E - mset (photons proc) =
      add_mset (prod.swap c) (E - mset (photons proc))"
    using f(7) unfolding E_def by (rule diff_add_right)
  have far': "\<forall>x \<in># add_mset (prod.swap c) E - mset (photons proc). md2 \<le> fst x"
    unfolding diff using f(8) far by (auto simp: E_def)
  show ?thesis
    unfolding pp_inv_def prod.case E'
    using f(1,2,3,4,5,6) ge d sub far' k by simp
qed

lemma pp_inv_evict:
  assumes inv: "pp_inv k R elig (proc, md2)" and ge: "k \<le> length elig" and k: "0 < k"
    and near: "snd c < md2"
  shows "pp_inv k R (elig @ [c]) (PhotonProcess_call (fst c) (snd c) (proc, md2)) \<and>
         snd (PhotonProcess_call (fst c) (snd c) (proc, md2)) \<le> md2"
proof -
  note f = pp_inv_full [OF inv ge k]
  define E where "E = mset (map prod.swap elig)"
  have E': "mset (map prod.swap (elig @ [c])) = add_mset (snd c, fst c) E"
    by (cases c) (simp add: E_def)
  obtain m r where mr: "photons proc = m # r" using f(9) by (cases "photons proc") auto
  have lenr: "length r = k - 1" using f(1) mr by simp
  define new where "new = rev (insort (snd c, fst c) (rev r))"
  have call: "PhotonProcess_call (fst c) (snd c) (proc, md2) = (proc\<lparr>photons := new\<rparr>, fst (hd new))"
    using f(2,3) mr lenr evict_eq [of m r "(snd c, fst c)"]
    by (simp add: pp_call_pair Let_def new_def)
  have md: "md2 = fst m" using f(6) mr by simp
  have sr: "sorted (rev r)" using f(5) mr by (simp add: sorted_append)
  have snew: "sorted (rev new)" using sr by (simp add: new_def sorted_insort)
  have msnew: "mset new = add_mset (snd c, fst c) (mset r)" by (simp add: new_def)
  have lennew: "length new = k" using lenr k by (simp add: new_def)
  have rle: "\<forall>x \<in> set r. fst x \<le> fst m"
    using desc_hd_fst_ge [OF f(5)] mr by auto
  have newne: "new \<noteq> []" using lennew k by auto
  then have "hd new \<in> set new" by simp
  then have "hd new \<in># mset new" by simp
  then have hdcases: "hd new = (snd c, fst c) \<or> hd new \<in> set r"
    unfolding msnew by auto
  have hdle: "fst (hd new) \<le> md2"
    using hdcases rle near md by auto
  have mrE: "add_mset m (mset r) \<subseteq># E" using f(7) mr by (simp add: E_def)
  have dR: "snd c < R"
  proof -
    have "m \<in># E" using mrE by (auto dest: mset_subset_eqD)
    then have "m \<in> prod.swap ` set elig" by (simp add: E_def)
    then have "fst m < R" using f(4) by (auto simp: list_all_iff)
    with near md show ?thesis by simp
  qed
  have sub: "mset new \<subseteq># add_mset (snd c, fst c) E"
    unfolding msnew using sub_drop_left [OF mrE] by simp
  have diff: "add_mset (snd c, fst c) E - mset new = add_mset m (E - mset (photons proc))"
    unfolding msnew using diff_drop_left [OF mrE] mr by simp
  have far: "\<forall>x \<in># add_mset (snd c, fst c) E - mset new. fst (hd new) \<le> fst x"
    unfolding diff using f(8) hdle md by (auto simp: E_def)
  have all': "list_all (\<lambda>c. snd c < R) (elig @ [c])" using f(4) dR by simp
  have "pp_inv k R (elig @ [c]) (proc\<lparr>photons := new\<rparr>, fst (hd new))"
    unfolding pp_inv_def prod.case E'
    using f(2,3) lennew k ge snew sub far all' by simp
  with call hdle show ?thesis by simp
qed

lemma pp_inv_md2_le:
  assumes inv: "pp_inv k R elig (proc, md2)" and k: "0 < k"
  shows "md2 \<le> R"
proof (cases "length elig < k")
  case True
  with inv show ?thesis by (simp add: pp_inv_def)
next
  case False
  then have ge: "k \<le> length elig" by simp
  note f = pp_inv_full [OF inv ge k]
  have "hd (photons proc) \<in># mset (photons proc)" using f(9) by simp
  with f(7) have "hd (photons proc) \<in># mset (map prod.swap elig)"
    by (meson mset_subset_eqD)
  then have "hd (photons proc) \<in> prod.swap ` set elig" by simp
  then have "fst (hd (photons proc)) < R" using f(4) by (auto simp: list_all_iff)
  with f(6) show ?thesis by simp
qed

lemma pp_inv_step:
  assumes inv: "pp_inv k R elig st" and k: "0 < k"
  shows "pp_inv k R (if snd c < R then elig @ [c] else elig)
           (if snd c < snd st then PhotonProcess_call (fst c) (snd c) st else st) \<and>
         snd (if snd c < snd st then PhotonProcess_call (fst c) (snd c) st else st) \<le> snd st"
proof -
  obtain proc md2 where st: "st = (proc, md2)" by (cases st)
  note inv' = inv [unfolded st]
  note le = pp_inv_md2_le [OF inv' k]
  show ?thesis
  proof (cases "snd c < R")
    case False
    with le inv show ?thesis by (simp add: st)
  next
    case inR: True
    show ?thesis
    proof (cases "length elig < k")
      case True
      with inv' have md: "md2 = R" by (simp add: pp_inv_def)
      obtain proc' md2' where call: "PhotonProcess_call (fst c) (snd c) (proc, md2) = (proc', md2')"
        by (cases "PhotonProcess_call (fst c) (snd c) (proc, md2)")
      from pp_inv_fill [OF inv' True inR] call
      have inv2: "pp_inv k R (elig @ [c]) (proc', md2')" by simp
      from pp_inv_md2_le [OF inv2 k] md inR inv2 call show ?thesis by (simp add: st)
    next
      case False
      then have ge: "k \<le> length elig" by simp
      show ?thesis
      proof (cases "snd c < md2")
        case True
        with pp_inv_evict [OF inv' ge k True] inR show ?thesis by (simp add: st)
      next
        case False
        then have "md2 \<le> snd c" by simp
        from pp_inv_keep [OF inv' ge k inR this] False inR show ?thesis by (simp add: st)
      qed
    qed
  qed
qed

lemma Lookup_pp_inv:
  assumes "pp_inv k R elig st" and "0 < k"
  shows "pp_inv k R (elig @ filter (\<lambda>c. snd c < R) cands) (Lookup PhotonProcess_call cands st) \<and>
         snd (Lookup PhotonProcess_call cands st) \<le> snd st"
  using assms(1)
proof (induction cands arbitrary: elig st)
  case Nil
  then show ?case by simp
next
  case (Cons c cs)
  let ?st = "if snd c < snd st then PhotonProcess_call (fst c) (snd c) st else st"
  let ?el = "if snd c < R then elig @ [c] else elig"
  from pp_inv_step [OF Cons.prems assms(2), of c]
  have s: "pp_inv k R ?el ?st" and m: "snd ?st \<le> snd st" by simp_all
  from Cons.IH [OF s]
  have "pp_inv k R (?el @ filter (\<lambda>c. snd c < R) cs) (Lookup PhotonProcess_call cs ?st)"
    and "snd (Lookup PhotonProcess_call cs ?st) \<le> snd ?st" by simp_all
  with m show ?case by (cases "snd c < R"; cases "snd c < snd st") simp_all
qed

lemma pp_inv_init:
  "length mem = k \<Longrightarrow> 0 < k \<Longrightarrow> pp_inv k R [] (new_PhotonProcess k mem, R)"
  by (simp add: pp_inv_def new_PhotonProcess_def retained_def)

lemma Lookup_append: "Lookup f (xs @ ys) st = Lookup f ys (Lookup f xs st)"
  by (induction xs arbitrary: st) simp_all

lemma pp_inv_retained:
  assumes inv: "pp_inv k R elig (proc, md2)" and k: "0 < k"
  shows "foundPhotons proc = min k (length elig) \<and>
     mset (retained proc) \<subseteq># mset (map prod.swap elig) \<and>
     (\<forall>x \<in># mset (map prod.swap elig) - mset (retained proc).
        \<forall>y \<in> set (retained proc). fst y \<le> fst x) \<and>
     md2 = (if k \<le> length elig then Max (fst ` set (retained proc)) else R)"
proof (cases "length elig < k")
  case True
  with inv show ?thesis by (simp add: pp_inv_def)
next
  case False
  then have ge: "k \<le> length elig" by simp
  note f = pp_inv_full [OF inv ge k]
  have ret: "retained proc = photons proc" using f(1,3) by (simp add: retained_def)
  have far: "\<forall>x \<in># mset (map prod.swap elig) - mset (photons proc).
        \<forall>y \<in> set (photons proc). fst y \<le> fst x"
  proof (intro ballI)
    fix x y
    assume x: "x \<in># mset (map prod.swap elig) - mset (photons proc)" and y: "y \<in> set (photons proc)"
    from f(8) x have "md2 \<le> fst x" by blast
    moreover from desc_hd_fst_ge [OF f(5) y] f(6) have "fst y \<le> md2" by simp
    ultimately show "fst y \<le> fst x" by simp
  qed
  from desc_hd_Max [OF f(5) f(9)] f(6) have "md2 = Max (fst ` set (photons proc))" by simp
  with far f(3,7) ge ret show ?thesis by simp
qed

text \<open>
  Claim C2, as the code has it. A \<open>PhotonProcess\<close> with bound \<open>k > 0\<close> is driven by a
  lookup of radius \<open>R\<close> over any sequence of candidates, so that a candidate reaches the
  process only when its squared distance is below the current radius. Then, among the
  candidates within \<open>R\<close>: the process holds \<open>min k N\<close> of them, never more than \<open>k\<close>;
  what it holds is a part of them, and no candidate left out is nearer than one that is
  held (the held ones are the \<open>k\<close> nearest); once \<open>k\<close> have been seen the reported radius
  is the largest squared distance held, and before that it is still \<open>R\<close>; and whatever
  candidates follow, the reported radius does not go up.
\<close>

theorem PhotonProcess_Lookup_keeps_nearest:
  assumes k: "0 < k" and mem: "length mem = k"
    and run: "Lookup PhotonProcess_call cands (new_PhotonProcess k mem, R) = (proc, md2)"
  shows "foundPhotons proc = min k (length (filter (\<lambda>c. snd c < R) cands)) \<and>
     foundPhotons proc \<le> k \<and>
     mset (retained proc) \<subseteq># mset (map prod.swap (filter (\<lambda>c. snd c < R) cands)) \<and>
     (\<forall>x \<in># mset (map prod.swap (filter (\<lambda>c. snd c < R) cands)) - mset (retained proc).
        \<forall>y \<in> set (retained proc). distanceSquared y \<le> distanceSquared x) \<and>
     md2 = (if k \<le> length (filter (\<lambda>c. snd c < R) cands)
            then Max (distanceSquared ` set (retained proc)) else R) \<and>
     (\<forall>more. snd (Lookup PhotonProcess_call (cands @ more) (new_PhotonProcess k mem, R)) \<le> md2)"
proof -
  from Lookup_pp_inv [OF pp_inv_init [OF mem k] k, of R cands] run
  have inv: "pp_inv k R (filter (\<lambda>c. snd c < R) cands) (proc, md2)" by simp
  have mono: "\<forall>more. snd (Lookup PhotonProcess_call (cands @ more) (new_PhotonProcess k mem, R)) \<le> md2"
    using Lookup_pp_inv [OF inv k] by (simp add: Lookup_append run)
  from pp_inv_retained [OF inv k] mono show ?thesis by simp
qed

theorem PhotonProcess_Lookup_keeps_nearest_witness:
  "foundPhotons \<lparr>photons = [(3, 1), (1, 3)], nLookup = 2, foundPhotons = 2\<rparr> = 2 \<and>
   (3 :: real) = Max (distanceSquared ` set (retained
       \<lparr>photons = [(3, 1), (1, 3)], nLookup = 2, foundPhotons = 2\<rparr>))"
proof -
  have k: "0 < (2 :: nat)" by simp
  have mem: "length [(0, 0), (0, 0) :: ClosePhoton] = 2" by simp
  have run: "Lookup PhotonProcess_call [(0, 5), (1, 3), (2, 9), (3, 1), (4, 4)]
      (new_PhotonProcess 2 [(0, 0), (0, 0)], 8) =
     (\<lparr>photons = [(3, 1), (1, 3)], nLookup = 2, foundPhotons = 2\<rparr>, 3)"
    by (simp add: pp_call_pair new_PhotonProcess_def make_heap_def pop_heap_def
        push_heap_def Let_def)
  from PhotonProcess_Lookup_keeps_nearest [OF k mem run] show ?thesis by simp
qed

text \<open>
  Claim C2 as stated, for every sequence the process is called on, fails: the process
  itself never compares a candidate with what it holds. Called on a candidate at
  squared distance 1 and then on one at squared distance 2, a process with bound 1 ends
  holding the farther one, and its reported radius has gone up from 1 to 2.
\<close>

theorem PhotonProcess_call_counterexample:
  "retained (fst (call_all PhotonProcess_call [(0, 1), (1, 2)]
       (new_PhotonProcess 1 [(0, 0)], 10))) = [(2, 1)] \<and>
   snd (call_all PhotonProcess_call [(0, 1)] (new_PhotonProcess 1 [(0, 0)], 10)) = 1 \<and>
   snd (call_all PhotonProcess_call [(0, 1), (1, 2)] (new_PhotonProcess 1 [(0, 0)], 10)) = 2"
  by (simp add: pp_call_pair new_PhotonProcess_def make_heap_def pop_heap_def
      push_heap_def retained_def Let_def)

subsection \<open>The nearest radiance photon facing the query normal\<close>

text \<open>
  Claim C9, as the code has it. \<open>RadiancePhotonProcess\<close> accepts a candidate exactly when
  the dot product of its normal with the query normal is positive, and on accepting it
  keeps that candidate alone and lowers the radius to its squared distance. A lookup of
  radius \<open>R\<close> therefore ends with the nearest accepted candidate within \<open>R\<close>: with none
  accepted the pointer is still null and the radius still \<open>R\<close>; otherwise the pointer is
  an accepted candidate, the radius is its squared distance, and no candidate with a
  positive dot product is nearer.
\<close>

theorem RadiancePhotonProcess_keeps_nearest_facing:
  assumes "Lookup RadiancePhotonProcess_call cands (new_RadiancePhotonProcess pp nn, R) =
      (proc, md2)"
  shows "(\<forall>rp d pr m. RadiancePhotonProcess_call rp d (pr, m) =
            (if 0 < Dot (rp_n rp) (rpp_n pr) then (pr\<lparr>photon := Some rp\<rparr>, d) else (pr, m))) \<and>
         (filter (\<lambda>c. 0 < Dot (rp_n (fst c)) nn \<and> snd c < R) cands = []
            \<longrightarrow> photon proc = None \<and> md2 = R) \<and>
         (filter (\<lambda>c. 0 < Dot (rp_n (fst c)) nn \<and> snd c < R) cands \<noteq> []
            \<longrightarrow> (\<exists>rp. photon proc = Some rp \<and> (rp, md2) \<in> set cands \<and>
                   0 < Dot (rp_n rp) nn \<and> md2 < R)) \<and>
         (\<forall>c \<in> set cands. 0 < Dot (rp_n (fst c)) nn \<longrightarrow> md2 \<le> snd c)"
  using Lookup_rp_nearest [OF assms] rp_call_pair
  by (simp add: new_RadiancePhotonProcess_def)

theorem RadiancePhotonProcess_keeps_nearest_facing_witness:
  "photon \<lparr>rpp_p = (0, 0, 0), rpp_n = (0, 0, 1),
           photon = Some \<lparr>rp_p = (1, 0, 0), rp_n = (0, 0, 1), Lo = black\<rparr>\<rparr> =
     Some \<lparr>rp_p = (1, 0, 0), rp_n = (0, 0, 1), Lo = black\<rparr> \<and>
   (1 :: real) < 9"
proof -
  have run: "Lookup RadiancePhotonProcess_call
      [(\<lparr>rp_p = (2, 0, 0), rp_n = (0, 0, 1), Lo = black\<rparr>, 4),
       (\<lparr>rp_p = (0, 1, 0), rp_n = (0, 0, - 1), Lo = black\<rparr>, 1),
       (\<lparr>rp_p = (1, 0, 0), rp_n = (0, 0, 1), Lo = black\<rparr>, 1),
       (\<lparr>rp_p = (0, 0, 0), rp_n = (0, 0, 1), Lo = black\<rparr>, 3)]
      (new_RadiancePhotonProcess (0, 0, 0) (0, 0, 1), 9) =
     (\<lparr>rpp_p = (0, 0, 0), rpp_n = (0, 0, 1),
       photon = Some \<lparr>rp_p = (1, 0, 0), rp_n = (0, 0, 1), Lo = black\<rparr>\<rparr>, 1)"
    by (simp add: rp_call_pair new_RadiancePhotonProcess_def)
  from RadiancePhotonProcess_keeps_nearest_facing [OF run] show ?thesis by simp
qed

text \<open>
  Claim C9 as stated, with a non-negative dot product accepted, fails: a candidate whose
  normal is perpendicular to the query normal has dot product 0 and is not accepted.
\<close>

theorem RadiancePhotonProcess_perpendicular_counterexample:
  "0 \<le> Dot (rp_n \<lparr>rp_p = (1, 0, 0), rp_n = (1, 0, 0), Lo = black\<rparr>) (0, 1, 0) \<and>
   RadiancePhotonProcess_call \<lparr>rp_p = (1, 0, 0), rp_n = (1, 0, 0), Lo = black\<rparr> 1
       (new_RadiancePhotonProcess (0, 0, 0) (0, 1, 0), 4) =
     (new_RadiancePhotonProcess (0, 0, 0) (0, 1, 0), 4) \<and>
   photon (fst (RadiancePhotonProcess_call \<lparr>rp_p = (1, 0, 0), rp_n = (1, 0, 0), Lo = black\<rparr> 1
       (new_RadiancePhotonProcess (0, 0, 0) (0, 1, 0), 4))) = None"
  by (simp add: rp_call_pair new_RadiancePhotonProcess_def)

section \<open>Properties of the shooting loop\<close>

subsection \<open>The invariant is kept\<close>

lemma store_volume_nshot [simp]: "nshot (store_volume cfg shot ph s) = nshot s"
  by (simp add: store_volume_def Let_def)

lemma store_caustic_nshot [simp]: "nshot (store_caustic cfg ph s) = nshot s"
  by (simp add: store_caustic_def Let_def)

lemma store_indirect_nshot [simp]: "nshot (store_indirect cfg ph s) = nshot s"
  by (simp add: store_indirect_def Let_def)







lemma deposit_surface_nshot [simp]: "nshot (deposit_surface cfg n sp ph s) = nshot s"
  by (simp add: deposit_surface_def)

lemma deposit_radiance_nshot [simp]: "nshot (deposit_radiance cfg b hit d s) = nshot s"
  by (simp add: deposit_radiance_def Let_def)


























subsection \<open>Giving up\<close>



lemma shoot_idle [simp]: "shoot_photon env cfg idle_shot s = s"
  by (simp add: shoot_photon_def idle_shot_def)







subsection \<open>The specular flag and the deposit of surface photons\<close>

lemma store_volume_surface:
  "directPhotons (store_volume cfg shot ph s) = directPhotons s"
  "causticPhotons (store_volume cfg shot ph s) = causticPhotons s"
  "indirectPhotons (store_volume cfg shot ph s) = indirectPhotons s"
  "causticDone (store_volume cfg shot ph s) = causticDone s"
  "indirectDone (store_volume cfg shot ph s) = indirectDone s"
  by (simp_all add: store_volume_def Let_def)


lemma store_caustic_stored:
  "causticPhotons (store_caustic cfg ph s) =
     (if causticDone s then causticPhotons s else causticPhotons s @ [ph])"
  "directPhotons (store_caustic cfg ph s) = directPhotons s"
  "indirectPhotons (store_caustic cfg ph s) = indirectPhotons s"
  by (simp_all add: store_caustic_def Let_def)

lemma store_indirect_stored:
  "indirectPhotons (store_indirect cfg ph s) =
     (if indirectDone s then indirectPhotons s else indirectPhotons s @ [ph])"
  "directPhotons (store_indirect cfg ph s) = directPhotons s"
  "causticPhotons (store_indirect cfg ph s) = causticPhotons s"
  by (simp_all add: store_indirect_def Let_def)

lemma deposit_radiance_surface:
  "directPhotons (deposit_radiance cfg b hit d s) = directPhotons s"
  "causticPhotons (deposit_radiance cfg b hit d s) = causticPhotons s"
  "indirectPhotons (deposit_radiance cfg b hit d s) = indirectPhotons s"
  by (simp_all add: deposit_radiance_def Let_def)

lemma same_surface_refl [simp]: "same_surface s s"
  by (simp add: same_surface_def)

lemma same_surface_trans: "same_surface s t \<Longrightarrow> same_surface t u \<Longrightarrow> same_surface s u"
  by (simp add: same_surface_def)

lemma volume_interaction_surface:
  "volume_interaction env cfg shot m albedo (a, d, s) = (g, a', d', s') \<Longrightarrow> same_surface s s'"
  by (auto simp: volume_interaction_def Let_def same_surface_def store_volume_surface
      split: if_splits)

lemma trace_loop_surface:
  "trace_loop env cfg shot ms (a, d, s) = (g, a', d', s') \<Longrightarrow> same_surface s s'"
proof (induction ms arbitrary: a d s)
  case Nil
  then show ?case by simp
next
  case (Cons m ms)
  obtain inside a1 albedo where rm: "RayMarch env m a = (inside, a1, albedo)"
    by (cases "RayMarch env m a")
  obtain g1 a2 d2 s2 where vi:
    "volume_interaction env cfg shot m albedo (a1, d, s) = (g1, a2, d2, s2)"
    by (cases "volume_interaction env cfg shot m albedo (a1, d, s)")
  note v = volume_interaction_surface [OF vi]
  show ?case
  proof (cases "inside \<and> g1")
    case True
    with Cons.prems rm vi have "trace_loop env cfg shot ms (a2, d2, s2) = (g, a', d', s')"
      by simp
    from same_surface_trans [OF v Cons.IH [OF this]] show ?thesis .
  next
    case False
    with Cons.prems rm vi v show ?thesis by (auto split: if_splits)
  qed
qed

lemma TraceThrough_surface:
  assumes "TraceThrough env cfg ts a d isect shot s = (ok, a', d', hit, s')"
  shows "same_surface s s'"
proof (cases ts)
  case NoVolume
  with assms show ?thesis by (simp add: TraceThrough_def)
next
  case SurfaceInFront
  with assms show ?thesis by (simp add: TraceThrough_def)
next
  case (Marched ms final)
  obtain g a1 d1 s1 where tl: "trace_loop env cfg shot ms (a, d, s) = (g, a1, d1, s1)"
    by (cases "trace_loop env cfg shot ms (a, d, s)")
  from trace_loop_surface [OF tl] assms Marched tl show ?thesis
    by (auto simp: TraceThrough_def split: if_splits option.splits)
qed

lemma bounce_step_cases:
  assumes tt: "TraceThrough env cfg (b_trace b) (ps_alpha ps) (ps_d ps) (b_p b) (int (nshot s)) s =
       (ok, a0, d, hit, s1)"
    and step: "bounce_step env cfg b ps s = (r, s')"
  shows "(\<not> ok \<longrightarrow> r = None \<and> s' = s1) \<and>
     (ok \<longrightarrow> s' = (if b_nComponents b > b_nSpecular b
                     then deposit_radiance cfg b hit d
                            (deposit_surface cfg (nIntersections ps + 1) (specularPath ps)
                               \<lparr>p = hit, alpha = sp_mul a0 (b_sceneTransmittance b), wi = neg d\<rparr> s1)
                     else s1)) \<and>
     (\<forall>q. r = Some q \<longrightarrow>
        nIntersections q = nIntersections ps + 1 \<and>
        specularPath q = ((nIntersections ps + 1 = 1 \<or> specularPath ps) \<and> b_specular b))"
  using step unfolding bounce_step_def Let_def tt prod.case
  by (auto split: if_splits)

lemma bounce_step_flag:
  assumes "bounce_step env cfg b ps s = (Some q, s')"
  shows "nIntersections q = nIntersections ps + 1 \<and>
         specularPath q = ((nIntersections ps + 1 = 1 \<or> specularPath ps) \<and> b_specular b)"
proof -
  obtain ok a0 d hit s1 where tt:
    "TraceThrough env cfg (b_trace b) (ps_alpha ps) (ps_d ps) (b_p b) (int (nshot s)) s =
       (ok, a0, d, hit, s1)"
    by (cases "TraceThrough env cfg (b_trace b) (ps_alpha ps) (ps_d ps) (b_p b) (int (nshot s)) s")
  from bounce_step_cases [OF tt assms] show ?thesis by simp
qed

lemma path_after_flag:
  "path_after env cfg bs ps s = Some (q, s') \<Longrightarrow>
     nIntersections q = nIntersections ps + length bs \<and>
     specularPath q = (if bs = [] then specularPath ps
                       else (nIntersections ps = 0 \<or> specularPath ps) \<and> list_all b_specular bs)"
proof (induction bs arbitrary: ps s)
  case Nil
  then show ?case by simp
next
  case (Cons b bs)
  obtain r s1 where st: "bounce_step env cfg b ps s = (r, s1)"
    by (cases "bounce_step env cfg b ps s")
  with Cons.prems obtain ps1 where r: "r = Some ps1"
    and rest: "path_after env cfg bs ps1 s1 = Some (q, s')"
    by (cases r) auto
  from bounce_step_flag [OF st [unfolded r]]
  have n1: "nIntersections ps1 = nIntersections ps + 1"
    and f1: "specularPath ps1 = ((nIntersections ps + 1 = 1 \<or> specularPath ps) \<and> b_specular b)"
    by simp_all
  from Cons.IH [OF rest] n1 f1 show ?case by (cases bs) auto
qed

lemma mirror_history:
  "path_after env0 cfg_w [mirror_bounce (0, 0, 0)] (new_path (1, 1, 1) (0, 0, - 1)) s_w =
     Some (after_mirror, s_w)"
  by (simp add: s_w_def after_mirror_def start_shooting_def Surface_Init_def cfg_w_def env0_def
      mirror_bounce_def diffuse_bounce_def bounce_step_def TraceThrough_def new_path_def
      Black_def black_def AbsDot_def Let_def)

text \<open>
  Claim C4, as the code has it. The flag \<^verbatim>\<open>specularPath\<close> starts false. After each
  sampled bounce it becomes (first bounce OR previous flag) AND (the sampled component
  was specular). So after \<open>n\<close> sampled bounces of a path the number of intersections is
  \<open>n\<close>, and the flag is true exactly when \<open>n > 0\<close> and every one of the bounces was
  specular.
\<close>

theorem specularPath_tracks_specular_bounces:
  assumes "path_after env cfg bs (new_path a d) s = Some (q, s')"
  shows "specularPath (new_path a d) = False \<and>
         nIntersections q = length bs \<and>
         specularPath q = (bs \<noteq> [] \<and> list_all b_specular bs) \<and>
         (\<forall>b ps t ps' t'. bounce_step env cfg b ps t = (Some ps', t') \<longrightarrow>
            specularPath ps' =
              ((nIntersections ps + 1 = 1 \<or> specularPath ps) \<and> b_specular b))"
  using path_after_flag [OF assms] bounce_step_flag
  by (auto simp: new_path_def)

theorem specularPath_tracks_specular_bounces_witness:
  "nIntersections after_mirror = 1 \<and> specularPath after_mirror = True"
  using specularPath_tracks_specular_bounces [OF mirror_history]
  by (simp add: mirror_bounce_def)

text \<open>
  Claim C4 as stated fails twice: the flag is false, not true, before the first bounce;
  and after a first bounce that is specular the flag is true, while (previous flag AND
  first bounce) AND (specular) is false.
\<close>

theorem specularPath_update_counterexample:
  "specularPath (new_path (1, 1, 1) (0, 0, - 1)) = False \<and>
   map_option specularPath
     (fst (bounce_step env0 cfg_w (mirror_bounce (0, 0, 0)) (new_path (1, 1, 1) (0, 0, - 1)) s_w)) =
     Some True \<and>
   ((specularPath (new_path (1, 1, 1) (0, 0, - 1)) \<and>
     nIntersections (new_path (1, 1, 1) (0, 0, - 1)) + 1 = 1) \<and>
    b_specular (mirror_bounce (0, 0, 0))) = False"
  by (simp add: s_w_def start_shooting_def Surface_Init_def cfg_w_def env0_def
      mirror_bounce_def diffuse_bounce_def bounce_step_def TraceThrough_def new_path_def
      Black_def black_def AbsDot_def Let_def)

text \<open>
  Claim C3. A path has passed the intersections \<open>bs\<close> and meets the next one, \<open>b\<close>. When
  \<^verbatim>\<open>TraceThrough\<close> ends the path, or the surface has no non-specular component, the
  direct, caustic and indirect sets stay as they are. Otherwise the photon (hit point,
  weight times the transmittance, reversed ray direction) goes into the direct set when
  \<open>b\<close> is the first intersection; at a later intersection it goes into the caustic set
  when all bounces so far were specular, and into the indirect set otherwise, in both
  cases only while that category is not done.
\<close>

theorem deposit_by_path_history:
  assumes hist: "path_after env cfg bs (new_path a d) s0 = Some (ps, s)"
    and tt: "TraceThrough env cfg (b_trace b) (ps_alpha ps) (ps_d ps) (b_p b) (int (nshot s)) s =
       (ok, a1, d1, hit, s1)"
    and step: "bounce_step env cfg b ps s = (r, s')"
  shows "(\<not> ok \<or> \<not> b_nSpecular b < b_nComponents b \<longrightarrow>
            directPhotons s' = directPhotons s \<and> causticPhotons s' = causticPhotons s \<and>
            indirectPhotons s' = indirectPhotons s) \<and>
         (ok \<and> b_nSpecular b < b_nComponents b \<and> bs = [] \<longrightarrow>
            directPhotons s' = directPhotons s @
              [\<lparr>p = hit, alpha = sp_mul a1 (b_sceneTransmittance b), wi = neg d1\<rparr>] \<and>
            causticPhotons s' = causticPhotons s \<and> indirectPhotons s' = indirectPhotons s) \<and>
         (ok \<and> b_nSpecular b < b_nComponents b \<and> bs \<noteq> [] \<and> list_all b_specular bs \<longrightarrow>
            directPhotons s' = directPhotons s \<and> indirectPhotons s' = indirectPhotons s \<and>
            causticPhotons s' =
              (if causticDone s then causticPhotons s
               else causticPhotons s @
                 [\<lparr>p = hit, alpha = sp_mul a1 (b_sceneTransmittance b), wi = neg d1\<rparr>])) \<and>
         (ok \<and> b_nSpecular b < b_nComponents b \<and> bs \<noteq> [] \<and> \<not> list_all b_specular bs \<longrightarrow>
            directPhotons s' = directPhotons s \<and> causticPhotons s' = causticPhotons s \<and>
            indirectPhotons s' =
              (if indirectDone s then indirectPhotons s
               else indirectPhotons s @
                 [\<lparr>p = hit, alpha = sp_mul a1 (b_sceneTransmittance b), wi = neg d1\<rparr>]))"
proof -
  from path_after_flag [OF hist]
  have n: "nIntersections ps = length bs"
    and f: "specularPath ps = (bs \<noteq> [] \<and> list_all b_specular bs)"
    by (auto simp: new_path_def)
  from TraceThrough_surface [OF tt]
  have fr: "directPhotons s1 = directPhotons s" "causticPhotons s1 = causticPhotons s"
    "indirectPhotons s1 = indirectPhotons s" "causticDone s1 = causticDone s"
    "indirectDone s1 = indirectDone s"
    by (simp_all add: same_surface_def)
  note c = bounce_step_cases [OF tt step]
  show ?thesis
  proof (cases "ok \<and> b_nSpecular b < b_nComponents b")
    case False
    with c fr show ?thesis by auto
  next
    case True
    with c have s': "s' = deposit_radiance cfg b hit d1
        (deposit_surface cfg (length bs + 1) (bs \<noteq> [] \<and> list_all b_specular bs)
           \<lparr>p = hit, alpha = sp_mul a1 (b_sceneTransmittance b), wi = neg d1\<rparr> s1)"
      by (simp add: n f)
    show ?thesis
      unfolding s' deposit_radiance_surface
      using True fr
      by (simp add: deposit_surface_def store_caustic_stored store_indirect_stored)
  qed
qed

theorem deposit_by_path_history_witness:
  "causticPhotons (snd (bounce_step env0 cfg_w (diffuse_bounce (1, 0, 0)) after_mirror s_w)) =
     [\<lparr>p = (1, 0, 0), alpha = (1, 1, 1), wi = (0, 0, - 1)\<rparr>] \<and>
   directPhotons (snd (bounce_step env0 cfg_w (diffuse_bounce (1, 0, 0)) after_mirror s_w)) = []"
proof -
  have tt: "TraceThrough env0 cfg_w (b_trace (diffuse_bounce (1, 0, 0))) (ps_alpha after_mirror)
      (ps_d after_mirror) (b_p (diffuse_bounce (1, 0, 0))) (int (nshot s_w)) s_w =
      (True, (1, 1, 1), (0, 0, 1), (1, 0, 0), s_w)"
    by (simp add: TraceThrough_def diffuse_bounce_def after_mirror_def)
  have step: "bounce_step env0 cfg_w (diffuse_bounce (1, 0, 0)) after_mirror s_w =
      (fst (bounce_step env0 cfg_w (diffuse_bounce (1, 0, 0)) after_mirror s_w),
       snd (bounce_step env0 cfg_w (diffuse_bounce (1, 0, 0)) after_mirror s_w))"
    by simp
  from deposit_by_path_history [OF mirror_history tt step]
  show ?thesis
    by (simp add: mirror_bounce_def diffuse_bounce_def s_w_def start_shooting_def
        Surface_Init_def cfg_w_def)
qed

subsection \<open>Photons in the medium\<close>





section \<open>Properties of the radiance precomputation\<close>

lemma sp_mul_black [simp]: "sp_mul e black = black"
  by (cases e) (simp add: black_def)

lemma sp_add_black_left [simp]: "sp_add black e = e"
  by (cases e) (simp add: black_def)

lemma sp_add_black_right [simp]: "sp_add e black = e"
  by (cases e) (simp add: black_def)

lemma sp_scale_black [simp]: "sp_scale black k = black"
  by (simp add: black_def)











section \<open>Properties of the neighbour search of the final gather\<close>

lemma pp_call_found:
  "foundPhotons (fst (PhotonProcess_call ph d (proc, md2))) \<le> foundPhotons proc + 1 \<and>
   nLookup (fst (PhotonProcess_call ph d (proc, md2))) = nLookup proc"
  by (simp add: pp_call_pair Let_def)

lemma Lookup_found_bound:
  "foundPhotons (fst (Lookup PhotonProcess_call cands (proc, md2))) \<le> foundPhotons proc + length cands"
proof (induction cands arbitrary: proc md2)
  case Nil
  then show ?case by simp
next
  case (Cons c cs)
  show ?case
  proof (cases "snd c < md2")
    case False
    with Cons.IH [of proc md2] show ?thesis by simp
  next
    case True
    obtain proc1 md1 where call: "PhotonProcess_call (fst c) (snd c) (proc, md2) = (proc1, md1)"
      by (cases "PhotonProcess_call (fst c) (snd c) (proc, md2)")
    from pp_call_found [of "fst c" "snd c" proc md2] call
    have "foundPhotons proc1 \<le> foundPhotons proc + 1" by simp
    with Cons.IH [of proc1 md1] True call show ?thesis by simp
  qed
qed

lemma gather_search_starves:
  assumes few: "length (visit env pt nodes) < nIndirSamplePhotons"
  shows "foundPhotons proc < nIndirSamplePhotons \<Longrightarrow>
     gather_search fuel env (Some nodes) pt proc searchDist2 = None"
proof (induction fuel arbitrary: proc searchDist2)
  case 0
  then show ?case by simp
next
  case (Suc fuel)
  obtain proc1 md1 where lk: "Lookup PhotonProcess_call (candidates env nodes pt)
      (proc\<lparr>foundPhotons := 0\<rparr>, searchDist2) = (proc1, md1)"
    by (cases "Lookup PhotonProcess_call (candidates env nodes pt)
      (proc\<lparr>foundPhotons := 0\<rparr>, searchDist2)")
  from Lookup_found_bound [of "candidates env nodes pt" "proc\<lparr>foundPhotons := 0\<rparr>" searchDist2] lk
  have "foundPhotons proc1 \<le> length (candidates env nodes pt)" by simp
  with few have "foundPhotons proc1 < nIndirSamplePhotons" by (simp add: candidates_def)
  from Suc.IH [OF this] Suc.prems lk show ?case by simp
qed

text \<open>
  Claim C6 against the code. On an indirect map of a single photon the search for 50
  neighbours is still running after any number of turns: each lookup finds at most the
  one photon, and the loop only doubles the radius. On a null indirect map the first
  turn dereferences the null pointer.
\<close>

theorem gather_search_on_sparse_map:
  "(\<forall>fuel. start_gather_search fuel env0 cfg_w (Some [lone_photon]) (0, 0, 0) = None) \<and>
   (\<forall>fuel. start_gather_search (Suc fuel) env0 cfg_w None (0, 0, 0) = Some NullDereference)"
proof -
  have few: "length (visit env0 (0, 0, 0) [lone_photon]) < nIndirSamplePhotons"
    by (simp add: env0_def nIndirSamplePhotons_def)
  have "\<And>fuel. start_gather_search fuel env0 cfg_w (Some [lone_photon]) (0, 0, 0) = None"
    unfolding start_gather_search_def
    by (rule gather_search_starves [OF few]) (simp add: new_PhotonProcess_def nIndirSamplePhotons_def)
  moreover have "\<And>fuel. start_gather_search (Suc fuel) env0 cfg_w None (0, 0, 0) = Some NullDereference"
    by (simp add: start_gather_search_def new_PhotonProcess_def nIndirSamplePhotons_def)
  ultimately show ?thesis by simp
qed

theorem gather_search_on_sparse_map_witness:
  "start_gather_search 3 env0 cfg_w (Some [lone_photon]) (0, 0, 0) = None \<and>
   start_gather_search 1 env0 cfg_w None (0, 0, 0) = Some NullDereference"
  using gather_search_on_sparse_map by simp

section \<open>Properties of the median-cut environment light\<close>

text \<open>
  Claim C10. For all arguments the scene overload of \<^verbatim>\<open>Sample_L\<close> returns the black
  spectrum and leaves its three output parameters as they were, \<^verbatim>\<open>Pdf\<close> is 0 for every
  point and direction, and a shot of the shooting loop whose light sample is this
  result stores nothing: the state after it is the state before it.
\<close>

theorem MedianCut_Sample_L_is_inert:
  "Sample_L args outs = (black, outs) \<and> Black (fst (Sample_L args outs)) \<and>
   snd (Sample_L args outs) = outs \<and> Pdf pt w = 0 \<and>
   shoot_photon env cfg (sh\<lparr>s_L := fst (Sample_L args outs)\<rparr>) s = s"
  by (simp add: Sample_L_def Pdf_def Black_def shoot_photon_def)

theorem MedianCut_Sample_L_is_inert_witness:
  "Sample_L \<lparr>ls_uPos = (0, 0), ls_uComponent = 0, arg_u1 = 0, arg_u2 = 0, arg_time = 0\<rparr>
      \<lparr>out_ray = ((0, 0, 0), (0, 0, 1)), out_Ns = (0, 0, 1), out_pdf = 7\<rparr> =
     (black, \<lparr>out_ray = ((0, 0, 0), (0, 0, 1)), out_Ns = (0, 0, 1), out_pdf = 7\<rparr>) \<and>
   Pdf (0, 0, 0) (0, 0, 1) = 0"
  using MedianCut_Sample_L_is_inert
    [of "\<lparr>ls_uPos = (0, 0), ls_uComponent = 0, arg_u1 = 0, arg_u2 = 0, arg_time = 0\<rparr>"
        "\<lparr>out_ray = ((0, 0, 0), (0, 0, 1)), out_Ns = (0, 0, 1), out_pdf = 7\<rparr>"
        "(0, 0, 0)" "(0, 0, 1)"]
  by simp

end
